theory Spec2Isabelle
  imports Main "HOL-Library.Word"
begin

section \<open>The PulseAudio support library of LibVLC and its input plugin\<close>

text \<open>
  Two C files are embedded: \<^verbatim>\<open>src/pulse/mainloop.c\<close>, the support library, and
  \<^verbatim>\<open>pulse.c\<close>, the input plugin, whose text follows the translated strings in
  \<^verbatim>\<open>extras/package/win32/languages/croatian.nsh\<close>.

  The library keeps three statics: the pointer \<^verbatim>\<open>vlc_pa_mainloop\<close>, the counter
  \<^verbatim>\<open>unsigned refs\<close> and the mutex \<^verbatim>\<open>lock\<close>. Pointers are modelled as
  options (\<open>None\<close> is \<^verbatim>\<open>NULL\<close>), the counter as a 32-bit word, and every call
  into libpulse, libvlccore or the C library that has an effect is appended to a list of
  events carried in the state. What the outside world answers (whether a main loop can be
  allocated, what \<^verbatim>\<open>pa_context_get_state\<close> reads at each poll, ...) is a record
  of inputs.
\<close>

subsection \<open>Data\<close>

type_synonym mainloop_ptr = nat
type_synonym context_ptr = nat

text \<open>\<^verbatim>\<open>pa_context_state_t\<close> of libpulse.\<close>

datatype pa_context_state =
    PA_CONTEXT_UNCONNECTED
  | PA_CONTEXT_CONNECTING
  | PA_CONTEXT_AUTHORIZING
  | PA_CONTEXT_SETTING_NAME
  | PA_CONTEXT_READY
  | PA_CONTEXT_FAILED
  | PA_CONTEXT_TERMINATED

text \<open>
  The calls with an effect, in the order the program makes them. \<open>Refs_store v\<close> is the
  store of \<open>v\<close> into the static \<^verbatim>\<open>refs\<close>.
\<close>

text \<open>
  \<^verbatim>\<open>block_t\<close> of libvlccore, with the fields the plugin writes. \<^verbatim>\<open>mtime_t\<close> is
  \<^verbatim>\<open>int64_t\<close>, read from a 64-bit word by \<open>sint\<close>; the flag
  \<^verbatim>\<open>BLOCK_FLAG_DISCONTINUITY\<close> of \<^verbatim>\<open>i_flags\<close> is a boolean.
\<close>

type_synonym es_ptr = nat

record block =
  p_buffer :: "8 word list"
  i_buffer :: "64 word"
  i_nb_samples :: "32 word"
  i_dts :: "64 word"
  i_pts :: "64 word"
  flag_discontinuity :: bool

datatype event =
    Mutex_lock
  | Mutex_unlock
  | Refs_store "32 word"
  | Mainloop_new "mainloop_ptr option"
  | Mainloop_start mainloop_ptr int
  | Mainloop_stop mainloop_ptr
  | Mainloop_free mainloop_ptr
  | Mainloop_lock mainloop_ptr
  | Mainloop_unlock mainloop_ptr
  | Mainloop_wait mainloop_ptr
  | Context_new mainloop_ptr "string option" "context_ptr option"
  | Free_string "string option"
  | Context_set_state_callback context_ptr mainloop_ptr
  | Context_connect context_ptr int
  | Context_unref context_ptr
  | Msg_Err string
  | Es_out_set_pcr "64 word"
  | Es_out_send es_ptr block
  | Stream_drop

text \<open>
  A failed \<^verbatim>\<open>assert\<close> aborts the process, and so does libpulse on a
  \<^verbatim>\<open>NULL\<close> main loop; an integer division by zero traps.
\<close>

datatype error = Assertion_failed | Null_mainloop | Division_by_zero

record glob =
  vlc_pa_mainloop :: "mainloop_ptr option"
  refs :: "32 word"
  events :: "event list"

record env =
  mainloop_new_result :: "mainloop_ptr option"
  mainloop_start_result :: int
  user_agent :: "string option"
  context_new_result :: "context_ptr option"
  context_connect_result :: int
  context_state :: "nat \<Rightarrow> pa_context_state"
  context_errno :: int
  pa_strerror :: "int \<Rightarrow> string"

definition UINT_MAX :: "32 word" where
  "UINT_MAX = 4294967295"

text \<open>The statics as the program starts: \<^verbatim>\<open>refs = 0\<close>, the pointer zeroed.\<close>

definition initial :: glob where
  "initial = \<lparr>vlc_pa_mainloop = None, refs = 0, events = []\<rparr>"

definition emit :: "event \<Rightarrow> glob \<Rightarrow> glob" where
  "emit ev s = s\<lparr>events := events s @ [ev]\<rparr>"

subsection \<open>\<^verbatim>\<open>vlc_pa_mainloop_init\<close> and \<^verbatim>\<open>vlc_pa_mainloop_deinit\<close>\<close>

text \<open>
  The tail of \<^verbatim>\<open>vlc_pa_mainloop_init\<close> from \<^verbatim>\<open>assert (mainloop != NULL)\<close>
  on: the assertion, \<^verbatim>\<open>refs++\<close>, the label \<^verbatim>\<open>out\<close>.
\<close>

definition init_tail :: "mainloop_ptr option \<Rightarrow> glob \<Rightarrow> error + (mainloop_ptr option \<times> glob)" where
  "init_tail mainloop s =
     (case mainloop of
        None \<Rightarrow> Inl Assertion_failed
      | Some m \<Rightarrow>
          Inr (Some m, emit Mutex_unlock (emit (Refs_store (refs s + 1)) (s\<lparr>refs := refs s + 1\<rparr>))))"

definition vlc_pa_mainloop_init :: "env \<Rightarrow> glob \<Rightarrow> error + (mainloop_ptr option \<times> glob)" where
  "vlc_pa_mainloop_init e s0 =
     (let s = emit Mutex_lock s0 in
      if refs s = 0 then
        (case mainloop_new_result e of
           None \<Rightarrow> Inr (None, emit Mutex_unlock (emit (Mainloop_new None) s))
         | Some m \<Rightarrow>
             (let s1 = emit (Mainloop_start m (mainloop_start_result e)) (emit (Mainloop_new (Some m)) s) in
              if mainloop_start_result e < 0
              then Inr (Some m, emit Mutex_unlock (emit (Mainloop_free m) s1))
              else init_tail (Some m) (s1\<lparr>vlc_pa_mainloop := Some m\<rparr>)))
      else if refs s < UINT_MAX then Inr (None, emit Mutex_unlock s)
      else init_tail (vlc_pa_mainloop s) s)"

definition vlc_pa_mainloop_deinit :: "mainloop_ptr option \<Rightarrow> glob \<Rightarrow> error + glob" where
  "vlc_pa_mainloop_deinit mainloop s0 =
     (let s = emit Mutex_lock s0 in
      if refs s > 0 then
        if mainloop = vlc_pa_mainloop s then
          (let s1 = emit (Refs_store (refs s - 1)) (s\<lparr>refs := refs s - 1\<rparr>);
               mainloop' = (if refs s1 > 0 then None else mainloop);
               s2 = emit Mutex_unlock s1
           in case mainloop' of
                None \<Rightarrow> Inr s2
              | Some m \<Rightarrow> Inr (emit (Mainloop_free m) (emit (Mainloop_stop m) s2)))
        else Inl Assertion_failed
      else Inl Assertion_failed)"

subsection \<open>\<^verbatim>\<open>vlc_pa_error\<close>, \<^verbatim>\<open>context_wait\<close>, \<^verbatim>\<open>vlc_pa_connect\<close>, \<^verbatim>\<open>vlc_pa_disconnect\<close>\<close>

text \<open>\<^verbatim>\<open>msg_Err (obj, "%s: %s", msg, pa_strerror (pa_context_errno (ctx)))\<close>.\<close>

definition vlc_pa_error :: "env \<Rightarrow> string \<Rightarrow> context_ptr \<Rightarrow> glob \<Rightarrow> glob" where
  "vlc_pa_error e msg ctx s = emit (Msg_Err (msg @ '': '' @ pa_strerror e (context_errno e))) s"

text \<open>
  The loop of \<^verbatim>\<open>context_wait\<close>. The \<open>i\<close>-th evaluation of the loop condition
  reads \<open>context_state e i\<close>; the value is the operand of the \<^verbatim>\<open>return\<close>
  that ends the loop (\<open>- 1\<close> or \<open>0\<close>), and \<open>None\<close> when no poll ever ends it.
\<close>

partial_function (option) context_wait_loop ::
  "env \<Rightarrow> mainloop_ptr \<Rightarrow> nat \<Rightarrow> glob \<Rightarrow> (int \<times> glob) option" where
  "context_wait_loop e mainloop i s =
     (let state = context_state e i in
      if state \<noteq> PA_CONTEXT_READY then
        if state = PA_CONTEXT_FAILED \<or> state = PA_CONTEXT_TERMINATED then Some (- 1, s)
        else context_wait_loop e mainloop (Suc i) (emit (Mainloop_wait mainloop) s)
      else Some (0, s))"

text \<open>The conversion of an \<^verbatim>\<open>int\<close> to C's \<^verbatim>\<open>bool\<close>: zero is false, all else true.\<close>

definition bool_of_int :: "int \<Rightarrow> bool" where
  "bool_of_int v = (v \<noteq> 0)"

text \<open>\<^verbatim>\<open>context_wait\<close> is declared \<^verbatim>\<open>bool\<close>: the returned operand is converted.\<close>

definition context_wait :: "env \<Rightarrow> mainloop_ptr \<Rightarrow> glob \<Rightarrow> (bool \<times> glob) option" where
  "context_wait e mainloop s =
     (case context_wait_loop e mainloop 0 s of
        None \<Rightarrow> None
      | Some (v, s') \<Rightarrow> Some (bool_of_int v, s'))"

text \<open>The label \<^verbatim>\<open>fail\<close> of \<^verbatim>\<open>vlc_pa_connect\<close>.\<close>

definition connect_fail :: "mainloop_ptr \<Rightarrow> glob \<Rightarrow> error + (context_ptr option \<times> glob)" where
  "connect_fail mainloop s =
     (case vlc_pa_mainloop_deinit (Some mainloop) (emit (Mainloop_unlock mainloop) s) of
        Inl err \<Rightarrow> Inl err
      | Inr s' \<Rightarrow> Inr (None, s'))"

text \<open>The body of the \<^verbatim>\<open>if\<close> after a failed connection request or wait.\<close>

definition connect_error :: "env \<Rightarrow> mainloop_ptr \<Rightarrow> context_ptr \<Rightarrow> glob \<Rightarrow> error + (context_ptr option \<times> glob)" where
  "connect_error e mainloop ctx s =
     connect_fail mainloop
       (emit (Context_unref ctx) (vlc_pa_error e ''PulseAudio server connection failure'' ctx s))"

text \<open>
  \<^verbatim>\<open>vlc_pa_connect\<close>: \<open>None\<close> when the wait loop never ends, an error when an
  assertion aborts, else the returned pointer and the state. The right operand of
  \<^verbatim>\<open>||\<close> is evaluated only when the connection request did not fail. The state
  callback \<^verbatim>\<open>context_state_cb\<close> runs on the loop's own thread and only signals
  the loop; the caller sees it as the return of \<^verbatim>\<open>pa_threaded_mainloop_wait\<close>.
\<close>

definition vlc_pa_connect :: "env \<Rightarrow> glob \<Rightarrow> (error + (context_ptr option \<times> glob)) option" where
  "vlc_pa_connect e s0 =
     (case vlc_pa_mainloop_init e s0 of
        Inl err \<Rightarrow> Some (Inl err)
      | Inr (None, s) \<Rightarrow> Some (Inr (None, s))
      | Inr (Some mainloop, s) \<Rightarrow>
          (let ua = user_agent e;
               s1 = emit (Mainloop_lock mainloop) s;
               s2 = emit (Free_string ua) (emit (Context_new mainloop ua (context_new_result e)) s1)
           in case context_new_result e of
                None \<Rightarrow> Some (connect_fail mainloop s2)
              | Some ctx \<Rightarrow>
                  (let s3 = emit (Context_connect ctx (context_connect_result e))
                              (emit (Context_set_state_callback ctx mainloop) s2)
                   in if context_connect_result e < 0 then Some (connect_error e mainloop ctx s3)
                      else (case context_wait e mainloop s3 of
                              None \<Rightarrow> None
                            | Some (failed, s4) \<Rightarrow>
                                if failed then Some (connect_error e mainloop ctx s4)
                                else Some (Inr (Some ctx, emit (Mainloop_unlock mainloop) s4))))))"

text \<open>
  \<^verbatim>\<open>vlc_pa_disconnect\<close> reads the static pointer itself; libpulse aborts on a
  \<^verbatim>\<open>NULL\<close> main loop.
\<close>

definition vlc_pa_disconnect :: "context_ptr \<Rightarrow> glob \<Rightarrow> error + glob" where
  "vlc_pa_disconnect ctx s =
     (case vlc_pa_mainloop s of
        None \<Rightarrow> Inl Null_mainloop
      | Some mainloop \<Rightarrow>
          vlc_pa_mainloop_deinit (Some mainloop)
            (emit (Mainloop_unlock mainloop) (emit (Context_unref ctx) (emit (Mainloop_lock mainloop) s))))"

subsection \<open>Vocabulary of the properties\<close>

text \<open>A context state on which the wait loop goes round once more.\<close>

definition pending :: "pa_context_state \<Rightarrow> bool" where
  "pending st = (st \<noteq> PA_CONTEXT_READY \<and> st \<noteq> PA_CONTEXT_FAILED \<and> st \<noteq> PA_CONTEXT_TERMINATED)"

text \<open>The state after \<open>n\<close> more calls of \<^verbatim>\<open>pa_threaded_mainloop_wait\<close>.\<close>

definition waits :: "mainloop_ptr \<Rightarrow> nat \<Rightarrow> glob \<Rightarrow> glob" where
  "waits m n s = s\<lparr>events := events s @ replicate n (Mainloop_wait m)\<rparr>"

text \<open>
  A scan of a list of events that tracks whether the mutex \<^verbatim>\<open>lock\<close> is held:
  every store to \<^verbatim>\<open>refs\<close> happens with the mutex held, every stop and every free of
  a main loop with the mutex not held.
\<close>

fun release_order :: "bool \<Rightarrow> event list \<Rightarrow> bool" where
  "release_order held [] = True"
| "release_order held (Mutex_lock # es) = release_order True es"
| "release_order held (Mutex_unlock # es) = release_order False es"
| "release_order held (Refs_store v # es) = (held \<and> release_order held es)"
| "release_order held (Mainloop_stop m # es) = ((\<not> held) \<and> release_order held es)"
| "release_order held (Mainloop_free m # es) = ((\<not> held) \<and> release_order held es)"
| "release_order held (ev # es) = release_order held es"

text \<open>The inputs of a run in which every library call succeeds, but for the fields given.\<close>

definition sample_env :: "int \<Rightarrow> (nat \<Rightarrow> pa_context_state) \<Rightarrow> env" where
  "sample_env start states =
     \<lparr>mainloop_new_result = Some 7, mainloop_start_result = start,
      user_agent = Some ''VLC media player'', context_new_result = Some 3,
      context_connect_result = 0, context_state = states, context_errno = 6,
      pa_strerror = (\<lambda>n. if n = 6 then ''Connection refused'' else ''Unknown error code'')\<rparr>"

text \<open>
  The events of \<^verbatim>\<open>vlc_pa_connect\<close> from its entry to the connection request, when
  no holder exists yet and every call succeeds.
\<close>

definition connect_prefix :: "env \<Rightarrow> mainloop_ptr \<Rightarrow> context_ptr \<Rightarrow> event list" where
  "connect_prefix e m ctx =
     [Mutex_lock, Mainloop_new (Some m), Mainloop_start m (mainloop_start_result e),
      Refs_store 1, Mutex_unlock,
      Mainloop_lock m, Context_new m (user_agent e) (Some ctx), Free_string (user_agent e),
      Context_set_state_callback ctx m, Context_connect ctx (context_connect_result e)]"

text \<open>
  The wait loop entered at poll \<open>i\<close> in state \<open>s\<close> ends at poll \<open>k\<close> with result
  \<open>r\<close>: every poll before \<open>k\<close> reads a pending state, poll \<open>k\<close> does not.
\<close>

definition settled_at :: "env \<Rightarrow> mainloop_ptr \<Rightarrow> nat \<Rightarrow> glob \<Rightarrow> int \<times> glob \<Rightarrow> nat \<Rightarrow> bool" where
  "settled_at e m i s r k =
     (i \<le> k \<and> (\<forall>j. i \<le> j \<and> j < k \<longrightarrow> pending (context_state e j))
      \<and> \<not> pending (context_state e k)
      \<and> r = (if context_state e k = PA_CONTEXT_READY then 0 else - 1, waits m (k - i) s))"

text \<open>
  A sequence of calls of the two static functions, as their callers in this file make
  them; the pointers returned by the acquisitions are collected in order.
\<close>

datatype call = Acquire env | Release "mainloop_ptr option"

fun calls :: "call list \<Rightarrow> mainloop_ptr option list \<times> glob \<Rightarrow> error + (mainloop_ptr option list \<times> glob)" where
  "calls [] r = Inr r"
| "calls (Acquire e # cs) (hs, s) =
     (case vlc_pa_mainloop_init e s of
        Inl err \<Rightarrow> Inl err
      | Inr (h, s') \<Rightarrow> calls cs (hs @ [h], s'))"
| "calls (Release h # cs) (hs, s) =
     (case vlc_pa_mainloop_deinit h s of
        Inl err \<Rightarrow> Inl err
      | Inr s' \<Rightarrow> calls cs (hs, s'))"

text \<open>
  The number of threads started (a \<^verbatim>\<open>pa_threaded_mainloop_start\<close> that did not fail)
  and stopped in a list of events.
\<close>

fun thread_starts :: "event list \<Rightarrow> nat" where
  "thread_starts [] = 0"
| "thread_starts (Mainloop_start m r # evs) = (if 0 \<le> r then 1 else 0) + thread_starts evs"
| "thread_starts (ev # evs) = thread_starts evs"

fun thread_stops :: "event list \<Rightarrow> nat" where
  "thread_stops [] = 0"
| "thread_stops (Mainloop_stop m # evs) = 1 + thread_stops evs"
| "thread_stops (ev # evs) = thread_stops evs"

text \<open>
  The state of the statics between calls: at most one reference, a current main loop
  whenever there is one, and as many threads started as stopped and counted.
\<close>

definition steady :: "glob \<Rightarrow> bool" where
  "steady s = (refs s \<le> 1 \<and> (0 < refs s \<longrightarrow> vlc_pa_mainloop s \<noteq> None)
     \<and> thread_starts (events s) = thread_stops (events s) + unat (refs s))"

text \<open>
  The state in which \<^verbatim>\<open>vlc_pa_connect\<close> calls \<^verbatim>\<open>context_wait\<close>, when the
  acquisition left the state \<open>s1\<close>.
\<close>

definition connect_requested :: "env \<Rightarrow> mainloop_ptr \<Rightarrow> context_ptr \<Rightarrow> glob \<Rightarrow> glob" where
  "connect_requested e m ctx s1 =
     s1\<lparr>events := events s1 @
        [Mainloop_lock m, Context_new m (user_agent e) (Some ctx), Free_string (user_agent e),
         Context_set_state_callback ctx m, Context_connect ctx (context_connect_result e)]\<rparr>"

subsection \<open>\<^verbatim>\<open>stream_read_cb\<close> of the input plugin\<close>

text \<open>
  The fields of \<^verbatim>\<open>struct demux_sys_t\<close> that the callback reads or writes
  (\<open>sys_context\<close> is the field \<^verbatim>\<open>context\<close>).
\<close>

record demux_sys =
  sys_context :: context_ptr
  es :: "es_ptr option"
  discontinuity :: bool
  framesize :: "32 word"






section \<open>Properties\<close>

subsection \<open>Auxiliary facts\<close>

lemma word32_pred_pos: "(0 < (r::32 word) - 1) = (r \<noteq> 1)"
  by (metis diff_eq_eq add_0 word_gt_0)

lemma init_fresh:
  assumes "refs s = 0" and "mainloop_new_result e = Some m" and "0 \<le> mainloop_start_result e"
  shows "vlc_pa_mainloop_init e s =
           Inr (Some m, s\<lparr>vlc_pa_mainloop := Some m, refs := 1,
                          events := events s @ [Mutex_lock, Mainloop_new (Some m),
                                      Mainloop_start m (mainloop_start_result e),
                                      Refs_store 1, Mutex_unlock]\<rparr>)"
  using assms by (simp add: vlc_pa_mainloop_init_def init_tail_def emit_def Let_def)

lemma deinit_counted:
  assumes "0 < refs s" and "vlc_pa_mainloop s = Some m"
  shows "vlc_pa_mainloop_deinit (Some m) s =
           Inr (s\<lparr>refs := refs s - 1,
                  events := events s @ [Mutex_lock, Refs_store (refs s - 1), Mutex_unlock]
                              @ (if refs s = 1 then [Mainloop_stop m, Mainloop_free m] else [])\<rparr>)"
  using assms by (simp add: vlc_pa_mainloop_deinit_def emit_def Let_def word32_pred_pos)

text \<open>The scan rejects a stop made before the mutex is given up.\<close>

lemma release_order_rejects_stop_under_mutex:
  "\<not> release_order False [Mutex_lock, Refs_store v, Mainloop_stop m, Mainloop_free m, Mutex_unlock]"
  by simp

lemma waits_0: "waits m 0 s = s"
  by (simp add: waits_def)

lemma waits_Suc: "waits m n (emit (Mainloop_wait m) s) = waits m (Suc n) s"
  by (simp add: waits_def emit_def replicate_app_Cons_same)

text \<open>
  The wait loop returns as soon as a poll reads Ready, Failed or Terminated, after one
  \<^verbatim>\<open>pa_threaded_mainloop_wait\<close> for each earlier poll.
\<close>

lemma context_wait_loop_settles:
  assumes "\<forall>j. i \<le> j \<and> j < k \<longrightarrow> pending (context_state e j)"
    and "i \<le> k" and "\<not> pending (context_state e k)"
  shows "context_wait_loop e m i s =
           Some (if context_state e k = PA_CONTEXT_READY then 0 else - 1, waits m (k - i) s)"
  using assms
proof (induction "k - i" arbitrary: i s)
  case 0
  then have "i = k" by simp
  with 0 show ?case
    by (subst context_wait_loop.simps) (auto simp: pending_def waits_0)
next
  case (Suc n)
  then have lt: "i < k" and p: "pending (context_state e i)" by auto
  have step: "context_wait_loop e m i s = context_wait_loop e m (Suc i) (emit (Mainloop_wait m) s)"
    using p by (subst context_wait_loop.simps) (simp add: pending_def)
  have "n = k - Suc i" using Suc.hyps(2) by simp
  moreover have "\<forall>j. Suc i \<le> j \<and> j < k \<longrightarrow> pending (context_state e j)"
    using Suc.prems(1) by auto
  moreover have "Suc i \<le> k" using lt by simp
  ultimately have "context_wait_loop e m (Suc i) (emit (Mainloop_wait m) s) =
      Some (if context_state e k = PA_CONTEXT_READY then 0 else - 1,
            waits m (k - Suc i) (emit (Mainloop_wait m) s))"
    using Suc.hyps(1) Suc.prems(3) by blast
  moreover have "Suc (k - Suc i) = k - i" using lt by simp
  ultimately show ?case using step by (simp add: waits_Suc)
qed

lemma context_wait_settles:
  assumes "\<forall>j<k. pending (context_state e j)" and "\<not> pending (context_state e k)"
  shows "context_wait e m s = Some (context_state e k \<noteq> PA_CONTEXT_READY, waits m k s)"
  using context_wait_loop_settles [of 0 k e m s] assms
  by (simp add: context_wait_def bool_of_int_def)

text \<open>Conversely, a wait loop that returns has read such a state.\<close>

lemma body_done:
  assumes "\<not> pending st"
    and "(let state = st in
      if state \<noteq> PA_CONTEXT_READY then
        if state = PA_CONTEXT_FAILED \<or> state = PA_CONTEXT_TERMINATED then Some (- 1, s)
        else X
      else Some (0, s)) = Some r"
  shows "r = (if st = PA_CONTEXT_READY then 0 else - 1, s)"
  using assms by (cases "st = PA_CONTEXT_READY") (auto simp: pending_def)

lemma body_again:
  assumes "pending st"
    and "(let state = st in
      if state \<noteq> PA_CONTEXT_READY then
        if state = PA_CONTEXT_FAILED \<or> state = PA_CONTEXT_TERMINATED then Some (- 1, s)
        else X
      else Some (0, s)) = Some r"
  shows "X = Some r"
  using assms by (simp add: pending_def)

lemma settled_now:
  "\<not> pending (context_state e i) \<Longrightarrow>
   settled_at e m i s (if context_state e i = PA_CONTEXT_READY then 0 else - 1, s) i"
  by (auto simp: settled_at_def waits_0)

lemma settled_later:
  assumes "pending (context_state e i)" and "settled_at e m (Suc i) (emit (Mainloop_wait m) s) r k"
  shows "settled_at e m i s r k"
proof -
  have k: "Suc i \<le> k" and rest: "\<not> pending (context_state e k)"
    and r: "r = (if context_state e k = PA_CONTEXT_READY then 0 else - 1,
                 waits m (k - Suc i) (emit (Mainloop_wait m) s))"
    and p: "\<And>j. Suc i \<le> j \<Longrightarrow> j < k \<Longrightarrow> pending (context_state e j)"
    using assms(2) by (simp_all add: settled_at_def)
  have a: "pending (context_state e j)" if "i \<le> j \<and> j < k" for j
  proof (cases "j = i")
    case True
    with assms(1) show ?thesis by simp
  next
    case False
    with that have "Suc i \<le> j" and "j < k" by simp_all
    then show ?thesis by (rule p)
  qed
  have "Suc (k - Suc i) = k - i" using k by simp
  then have "waits m (k - Suc i) (emit (Mainloop_wait m) s) = waits m (k - i) s"
    by (simp add: waits_Suc)
  with r a rest k show ?thesis by (simp add: settled_at_def)
qed

lemma context_wait_loop_returns:
  assumes "context_wait_loop e m i s = Some r"
  shows "\<exists>k. settled_at e m i s r k"
  using assms
proof (induction e m i s r rule: context_wait_loop.raw_induct [rotated 1, consumes 1])
  case (1 f e m i s r)
  show ?case
  proof (cases "pending (context_state e i)")
    case False
    have "r = (if context_state e i = PA_CONTEXT_READY then 0 else - 1, s)"
      using False 1(2) by (rule body_done)
    with settled_now [OF False, of m s] show ?thesis by blast
  next
    case True
    have "f e m (Suc i) (emit (Mainloop_wait m) s) = Some r"
      using True 1(2) by (rule body_again)
    from 1(1) [OF this] obtain k where "settled_at e m (Suc i) (emit (Mainloop_wait m) s) r k" ..
    from settled_later [OF True this] show ?thesis ..
  qed
qed

text \<open>A context that stays pending for ever keeps the caller in the loop for ever.\<close>

lemma context_wait_loop_hangs:
  assumes "\<forall>j\<ge>i. pending (context_state e j)"
  shows "context_wait_loop e m i s = None"
proof (cases "context_wait_loop e m i s")
  case (Some r)
  from context_wait_loop_returns [OF Some] obtain k where "settled_at e m i s r k" ..
  with assms show ?thesis by (auto simp: settled_at_def)
qed simp

lemma connect_fail_no_context: "connect_fail m s \<noteq> Inr (Some ctx, s')"
  by (simp add: connect_fail_def split: sum.splits)

lemma connect_error_no_context: "connect_error e m c s \<noteq> Inr (Some ctx, s')"
  by (simp add: connect_error_def connect_fail_no_context)

lemma context_wait_false:
  assumes "context_wait e m s = Some (False, s')"
  shows "\<exists>k. context_state e k = PA_CONTEXT_READY \<and> (\<forall>j<k. pending (context_state e j))"
proof -
  from assms obtain v where l: "context_wait_loop e m 0 s = Some (v, s')" and v: "\<not> bool_of_int v"
    by (auto simp: context_wait_def split: option.splits)
  from context_wait_loop_returns [OF l] obtain k where k: "settled_at e m 0 s (v, s') k" ..
  then have "v = (if context_state e k = PA_CONTEXT_READY then 0 else - 1)"
    by (simp add: settled_at_def)
  with v have "context_state e k = PA_CONTEXT_READY"
    by (simp add: bool_of_int_def split: if_splits)
  moreover have "\<forall>j<k. pending (context_state e j)"
    using k by (simp add: settled_at_def)
  ultimately show ?thesis by blast
qed

text \<open>
  \<^verbatim>\<open>vlc_pa_connect\<close> hands a context to its caller only after a poll of the wait
  loop has read Ready.
\<close>

lemma connect_returns_context_only_ready:
  assumes "vlc_pa_connect e s = Some (Inr (Some ctx, s'))"
  shows "context_new_result e = Some ctx \<and> 0 \<le> context_connect_result e
       \<and> (\<exists>k. context_state e k = PA_CONTEXT_READY \<and> (\<forall>j<k. pending (context_state e j)))"
proof -
  from assms obtain m s1 where i: "vlc_pa_mainloop_init e s = Inr (Some m, s1)"
    by (auto simp: vlc_pa_connect_def split: sum.splits option.splits)
  from assms i have c: "context_new_result e = Some ctx"
    by (auto simp: vlc_pa_connect_def Let_def connect_fail_no_context connect_error_no_context
        split: option.splits if_splits)
  from assms i c have r: "0 \<le> context_connect_result e"
    by (auto simp: vlc_pa_connect_def Let_def connect_error_no_context split: if_splits)
  from assms i c r obtain s3 s4 where "context_wait e m s3 = Some (False, s4)"
    by (auto simp: vlc_pa_connect_def Let_def connect_error_no_context
        split: option.splits if_splits)
  from context_wait_false [OF this] c r show ?thesis by blast
qed

text \<open>
  Whatever calls are made from the start of the program, the count never exceeds one:
  an acquisition made while a holder exists is turned away.
\<close>

lemma init_keeps_le_one:
  assumes "vlc_pa_mainloop_init e s = Inr (h, s')" and "refs s \<le> 1"
  shows "refs s' \<le> 1"
proof (cases "refs s = 0")
  case True
  with assms(1) show ?thesis
    by (auto simp: vlc_pa_mainloop_init_def init_tail_def emit_def Let_def
        split: option.splits if_splits)
next
  case False
  with assms(2) have "refs s = 1"
    by (metis word_le_less_eq word_less_1)
  with assms(1) show ?thesis
    by (auto simp: vlc_pa_mainloop_init_def emit_def UINT_MAX_def)
qed

lemma deinit_keeps_le_one:
  assumes "vlc_pa_mainloop_deinit h s = Inr s'" and "refs s \<le> 1"
  shows "refs s' \<le> 1"
proof -
  from assms(1) have "0 < refs s" and r: "refs s' = refs s - 1"
    by (auto simp: vlc_pa_mainloop_deinit_def emit_def Let_def split: if_splits option.splits)
  with assms(2) have "refs s = 1"
    by (metis word_le_less_eq word_less_1 less_irrefl)
  with r show ?thesis by simp
qed

lemma calls_keep_le_one:
  assumes "calls cs (hs, s) = Inr (hs', s')" and "refs s \<le> 1"
  shows "refs s' \<le> 1"
  using assms
proof (induction cs arbitrary: hs s)
  case Nil
  then show ?case by simp
next
  case (Cons c cs)
  show ?case
  proof (cases c)
    case (Acquire e)
    with Cons.prems(1) obtain h s1 where i: "vlc_pa_mainloop_init e s = Inr (h, s1)"
      and rest: "calls cs (hs @ [h], s1) = Inr (hs', s')"
      by (auto split: sum.splits)
    from Cons.IH [OF rest init_keeps_le_one [OF i Cons.prems(2)]] show ?thesis .
  next
    case (Release h)
    with Cons.prems(1) obtain s1 where d: "vlc_pa_mainloop_deinit h s = Inr s1"
      and rest: "calls cs (hs, s1) = Inr (hs', s')"
      by (auto split: sum.splits)
    from Cons.IH [OF rest deinit_keeps_le_one [OF d Cons.prems(2)]] show ?thesis .
  qed
qed

lemma count_never_exceeds_one:
  "calls cs ([], initial) = Inr (hs, s) \<Longrightarrow> refs s \<le> 1"
  by (rule calls_keep_le_one [of cs "[]" initial hs s]) (simp_all add: initial_def)

lemma init_keeps_current:
  assumes "vlc_pa_mainloop_init e s = Inr (h, s')"
    and "refs s \<le> 1" and "0 < refs s \<longrightarrow> vlc_pa_mainloop s \<noteq> None"
  shows "0 < refs s' \<longrightarrow> vlc_pa_mainloop s' \<noteq> None"
proof (cases "refs s = 0")
  case True
  show ?thesis
  proof (cases "mainloop_new_result e")
    case None
    with True assms(1) show ?thesis
      by (auto simp: vlc_pa_mainloop_init_def emit_def)
  next
    case (Some m)
    with True assms(1) show ?thesis
      by (auto simp: vlc_pa_mainloop_init_def init_tail_def emit_def Let_def split: if_splits)
        metis
  qed
next
  case False
  with assms(2) have "refs s = 1"
    by (metis word_le_less_eq word_less_1)
  with assms(1,3) show ?thesis
    by (auto simp: vlc_pa_mainloop_init_def emit_def UINT_MAX_def)
qed

lemma deinit_keeps_current:
  assumes "vlc_pa_mainloop_deinit h s = Inr s'" and "refs s \<le> 1"
  shows "0 < refs s' \<longrightarrow> vlc_pa_mainloop s' \<noteq> None"
proof -
  from assms(1) have "0 < refs s" and r: "refs s' = refs s - 1"
    by (auto simp: vlc_pa_mainloop_deinit_def emit_def Let_def split: if_splits option.splits)
  with assms(2) have "refs s = 1"
    by (metis word_le_less_eq word_less_1 less_irrefl)
  with r show ?thesis by simp
qed

lemma calls_keep_current:
  assumes "calls cs (hs, s) = Inr (hs', s')"
    and "refs s \<le> 1" and "0 < refs s \<longrightarrow> vlc_pa_mainloop s \<noteq> None"
  shows "0 < refs s' \<longrightarrow> vlc_pa_mainloop s' \<noteq> None"
  using assms
proof (induction cs arbitrary: hs s)
  case Nil
  then show ?case by simp
next
  case (Cons c cs)
  show ?case
  proof (cases c)
    case (Acquire e)
    with Cons.prems(1) obtain h s1 where i: "vlc_pa_mainloop_init e s = Inr (h, s1)"
      and rest: "calls cs (hs @ [h], s1) = Inr (hs', s')"
      by (auto split: sum.splits)
    from Cons.IH [OF rest init_keeps_le_one [OF i Cons.prems(2)]
        init_keeps_current [OF i Cons.prems(2,3)]]
    show ?thesis .
  next
    case (Release h)
    with Cons.prems(1) obtain s1 where d: "vlc_pa_mainloop_deinit h s = Inr s1"
      and rest: "calls cs (hs, s1) = Inr (hs', s')"
      by (auto split: sum.splits)
    from Cons.IH [OF rest deinit_keeps_le_one [OF d Cons.prems(2)]
        deinit_keeps_current [OF d Cons.prems(2)]]
    show ?thesis .
  qed
qed

text \<open>
  In every state the program can reach with a positive count, the release of the current
  main loop passes both assertions.
\<close>

lemma release_of_counted_loop_returns:
  assumes "calls cs ([], initial) = Inr (hs, s)" and "0 < refs s"
  shows "\<exists>m s'. vlc_pa_mainloop s = Some m \<and> vlc_pa_mainloop_deinit (Some m) s = Inr s'"
proof -
  have "0 < refs s \<longrightarrow> vlc_pa_mainloop s \<noteq> None"
    by (rule calls_keep_current [OF assms(1)]) (simp_all add: initial_def)
  with assms(2) obtain m where m: "vlc_pa_mainloop s = Some m" by auto
  from deinit_counted [OF assms(2) m] m show ?thesis by blast
qed

text \<open>Starts and stops, call by call and over a run.\<close>

lemma thread_starts_append: "thread_starts (xs @ ys) = thread_starts xs + thread_starts ys"
  by (induction xs rule: thread_starts.induct) simp_all

lemma thread_stops_append: "thread_stops (xs @ ys) = thread_stops xs + thread_stops ys"
  by (induction xs rule: thread_stops.induct) simp_all

lemma init_step:
  assumes "vlc_pa_mainloop_init e s = Inr (h, s')"
  shows "thread_stops (events s') = thread_stops (events s)
       \<and> thread_starts (events s') =
           thread_starts (events s) + (if refs s = 0 \<and> refs s' = 1 then 1 else 0)"
proof (cases "refs s = 0")
  case True
  show ?thesis
  proof (cases "mainloop_new_result e")
    case None
    with True assms show ?thesis
      by (auto simp: vlc_pa_mainloop_init_def emit_def thread_starts_append thread_stops_append)
  next
    case (Some m)
    with True assms show ?thesis
      by (auto simp: vlc_pa_mainloop_init_def init_tail_def emit_def Let_def
          thread_starts_append thread_stops_append split: if_splits)
  qed
next
  case False
  with assms show ?thesis
    by (auto simp: vlc_pa_mainloop_init_def init_tail_def emit_def Let_def
        thread_starts_append thread_stops_append split: if_splits option.splits)
qed

lemma deinit_step:
  assumes "vlc_pa_mainloop_deinit (Some m) s = Inr s'"
  shows "thread_starts (events s') = thread_starts (events s)
       \<and> thread_stops (events s') =
           thread_stops (events s) + (if refs s' = 0 then 1 else 0)"
proof -
  from assms have p: "0 < refs s" and c: "vlc_pa_mainloop s = Some m"
    by (auto simp: vlc_pa_mainloop_deinit_def emit_def Let_def split: if_splits)
  from deinit_counted [OF p c] assms have
    "s' = s\<lparr>refs := refs s - 1,
            events := events s @ [Mutex_lock, Refs_store (refs s - 1), Mutex_unlock]
                        @ (if refs s = 1 then [Mainloop_stop m, Mainloop_free m] else [])\<rparr>"
    by simp
  then show ?thesis
    by (simp add: thread_starts_append thread_stops_append)
qed

lemma le_one_cases: "(r::32 word) \<le> 1 \<Longrightarrow> r = 0 \<or> r = 1"
  by (metis word_le_less_eq word_less_1)

lemma init_refs:
  assumes "vlc_pa_mainloop_init e s = Inr (h, s')" and "refs s \<le> 1"
  shows "refs s' = refs s \<or> (refs s = 0 \<and> refs s' = 1)"
proof -
  from le_one_cases [OF assms(2)] show ?thesis
  proof
    assume "refs s = 0"
    with assms(1) show ?thesis
      by (auto simp: vlc_pa_mainloop_init_def init_tail_def emit_def Let_def
          split: option.splits if_splits)
  next
    assume "refs s = 1"
    with assms(1) show ?thesis
      by (auto simp: vlc_pa_mainloop_init_def emit_def UINT_MAX_def)
  qed
qed

lemma init_keeps_steady:
  assumes "vlc_pa_mainloop_init e s = Inr (h, s')" and "steady s"
  shows "steady s'"
proof -
  from assms(2) have le: "refs s \<le> 1" and cur: "0 < refs s \<longrightarrow> vlc_pa_mainloop s \<noteq> None"
    and bal: "thread_starts (events s) = thread_stops (events s) + unat (refs s)"
    by (simp_all add: steady_def)
  note st = init_step [OF assms(1)]
  from init_refs [OF assms(1) le] have
    "thread_starts (events s') = thread_stops (events s') + unat (refs s')"
  proof
    assume "refs s' = refs s"
    with st bal show ?thesis by auto
  next
    assume "refs s = 0 \<and> refs s' = 1"
    with st bal show ?thesis by simp
  qed
  with init_keeps_le_one [OF assms(1) le] init_keeps_current [OF assms(1) le cur]
  show ?thesis by (simp add: steady_def)
qed

lemma deinit_steady:
  assumes "vlc_pa_mainloop_deinit h s = Inr s'" and "steady s"
  shows "h \<noteq> None \<and> refs s = 1 \<and> refs s' = 0 \<and> steady s'"
proof -
  from assms(2) have le: "refs s \<le> 1" and cur: "0 < refs s \<longrightarrow> vlc_pa_mainloop s \<noteq> None"
    and bal: "thread_starts (events s) = thread_stops (events s) + unat (refs s)"
    by (simp_all add: steady_def)
  from assms(1) have p: "0 < refs s" and c: "h = vlc_pa_mainloop s" and r: "refs s' = refs s - 1"
    by (auto simp: vlc_pa_mainloop_deinit_def emit_def Let_def split: if_splits option.splits)
  from p le_one_cases [OF le] have one: "refs s = 1" by auto
  from p cur c obtain m where m: "h = Some m" by auto
  from deinit_step [of m s s'] assms(1) m one r bal
  have "thread_starts (events s') = thread_stops (events s') + unat (refs s')" by simp
  with m one r show ?thesis by (simp add: steady_def)
qed

lemma calls_keep_steady:
  assumes "calls cs (hs, s) = Inr (hs', s')" and "steady s"
  shows "steady s'"
  using assms
proof (induction cs arbitrary: hs s)
  case Nil
  then show ?case by simp
next
  case (Cons c cs)
  show ?case
  proof (cases c)
    case (Acquire e)
    with Cons.prems(1) obtain h s1 where i: "vlc_pa_mainloop_init e s = Inr (h, s1)"
      and rest: "calls cs (hs @ [h], s1) = Inr (hs', s')"
      by (auto split: sum.splits)
    from Cons.IH [OF rest init_keeps_steady [OF i Cons.prems(2)]] show ?thesis .
  next
    case (Release h)
    with Cons.prems(1) obtain s1 where d: "vlc_pa_mainloop_deinit h s = Inr s1"
      and rest: "calls cs (hs, s1) = Inr (hs', s')"
      by (auto split: sum.splits)
    from deinit_steady [OF d Cons.prems(2)] have "steady s1" by simp
    from Cons.IH [OF rest this] show ?thesis .
  qed
qed

lemma steady_initial: "steady initial"
  by (simp add: steady_def initial_def)

text \<open>
  No run has two releases in a row that both return: the first leaves the count at zero.
\<close>

lemma deinit_error: "vlc_pa_mainloop_deinit h s = Inl err \<Longrightarrow> err = Assertion_failed"
  by (auto simp: vlc_pa_mainloop_deinit_def Let_def split: if_splits option.splits)

lemma deinit_at_zero: "refs s = 0 \<Longrightarrow> vlc_pa_mainloop_deinit h s = Inl Assertion_failed"
  by (simp add: vlc_pa_mainloop_deinit_def emit_def)

lemma two_releases_in_a_row_abort:
  assumes "calls cs ([], initial) = Inr (hs, s)"
  shows "calls [Release h1, Release h2] (hs, s) = Inl Assertion_failed"
proof (cases "vlc_pa_mainloop_deinit h1 s")
  case (Inl err)
  with deinit_error [OF Inl] show ?thesis by simp
next
  case (Inr s1)
  from calls_keep_steady [OF assms steady_initial] have "steady s" .
  from deinit_steady [OF Inr this] have "refs s1 = 0" by simp
  from deinit_at_zero [OF this] Inr show ?thesis by simp
qed

text \<open>What \<^verbatim>\<open>vlc_pa_connect\<close> returns once the wait loop has ended.\<close>

lemma connect_after_wait:
  assumes "vlc_pa_mainloop_init e s = Inr (Some m, s1)"
    and "context_new_result e = Some ctx" and "0 \<le> context_connect_result e"
    and "\<forall>j<k. pending (context_state e j)" and "\<not> pending (context_state e k)"
  shows "vlc_pa_connect e s =
           Some (if context_state e k \<noteq> PA_CONTEXT_READY
                 then connect_error e m ctx (waits m k (connect_requested e m ctx s1))
                 else Inr (Some ctx, emit (Mainloop_unlock m) (waits m k (connect_requested e m ctx s1))))"
proof -
  have eq: "emit (Context_connect ctx (context_connect_result e))
              (emit (Context_set_state_callback ctx m)
                (emit (Free_string (user_agent e))
                  (emit (Context_new m (user_agent e) (Some ctx))
                    (emit (Mainloop_lock m) s1)))) = connect_requested e m ctx s1"
    by (simp add: emit_def connect_requested_def)
  show ?thesis
    using assms(1-3) context_wait_settles [OF assms(4,5), of m "connect_requested e m ctx s1"]
    by (simp add: vlc_pa_connect_def Let_def eq)
qed




text \<open>
  \<^verbatim>\<open>vlc_pa_connect\<close> entered with no holder, when the thread of the main loop starts:
  the run that ends on Failed or Terminated and the run that ends on Ready.
\<close>

lemma connect_failed_state_releases:
  assumes "refs s = 0" and "mainloop_new_result e = Some m" and "0 \<le> mainloop_start_result e"
    and "context_new_result e = Some ctx" and "0 \<le> context_connect_result e"
    and "\<forall>j<k. pending (context_state e j)"
    and "context_state e k = PA_CONTEXT_FAILED \<or> context_state e k = PA_CONTEXT_TERMINATED"
  shows "vlc_pa_connect e s =
           Some (Inr (None, s\<lparr>vlc_pa_mainloop := Some m, refs := 0,
             events := events s @ connect_prefix e m ctx @ replicate k (Mainloop_wait m)
               @ [Msg_Err (''PulseAudio server connection failure: '' @ pa_strerror e (context_errno e)),
                  Context_unref ctx, Mainloop_unlock m,
                  Mutex_lock, Refs_store 0, Mutex_unlock, Mainloop_stop m, Mainloop_free m]\<rparr>))"
proof -
  let ?s1 = "s\<lparr>vlc_pa_mainloop := Some m, refs := 1,
                events := events s @ [Mutex_lock, Mainloop_new (Some m),
                            Mainloop_start m (mainloop_start_result e), Refs_store 1, Mutex_unlock]\<rparr>"
  let ?s3 = "emit (Context_connect ctx (context_connect_result e))
               (emit (Context_set_state_callback ctx m)
                 (emit (Free_string (user_agent e))
                   (emit (Context_new m (user_agent e) (context_new_result e))
                     (emit (Mainloop_lock m) ?s1))))"
  have np: "\<not> pending (context_state e k)" and nr: "context_state e k \<noteq> PA_CONTEXT_READY"
    using assms(7) by (auto simp: pending_def)
  have w: "context_wait e m ?s3 = Some (True, waits m k ?s3)"
    using context_wait_settles [OF assms(6) np, of m ?s3] nr by simp
  let ?s5 = "emit (Mainloop_unlock m) (emit (Context_unref ctx)
               (vlc_pa_error e ''PulseAudio server connection failure'' ctx (waits m k ?s3)))"
  have "0 < refs ?s5" and "vlc_pa_mainloop ?s5 = Some m"
    by (simp_all add: emit_def waits_def vlc_pa_error_def)
  from deinit_counted [OF this]
  have f: "connect_error e m ctx (waits m k ?s3) =
      Inr (None, ?s5\<lparr>refs := refs ?s5 - 1,
             events := events ?s5 @ [Mutex_lock, Refs_store (refs ?s5 - 1), Mutex_unlock]
                         @ (if refs ?s5 = 1 then [Mainloop_stop m, Mainloop_free m] else [])\<rparr>)"
    by (simp add: connect_error_def connect_fail_def)
  have "vlc_pa_connect e s = Some (connect_error e m ctx (waits m k ?s3))"
    using init_fresh [OF assms(1-3)] assms(4,5) w
    by (simp add: vlc_pa_connect_def Let_def)
  then show ?thesis
    unfolding f using assms(4)
    by (simp add: emit_def waits_def vlc_pa_error_def connect_prefix_def)
qed

lemma connect_failed_state_releases_witness:
  "vlc_pa_connect (sample_env 0 (\<lambda>i. if i < 2 then PA_CONTEXT_CONNECTING else PA_CONTEXT_FAILED)) initial
     = Some (Inr (None, \<lparr>vlc_pa_mainloop = Some 7, refs = 0, events =
         [Mutex_lock, Mainloop_new (Some 7), Mainloop_start 7 0, Refs_store 1, Mutex_unlock,
          Mainloop_lock 7, Context_new 7 (Some ''VLC media player'') (Some 3),
          Free_string (Some ''VLC media player''),
          Context_set_state_callback 3 7, Context_connect 3 0,
          Mainloop_wait 7, Mainloop_wait 7,
          Msg_Err ''PulseAudio server connection failure: Connection refused'',
          Context_unref 3, Mainloop_unlock 7,
          Mutex_lock, Refs_store 0, Mutex_unlock, Mainloop_stop 7, Mainloop_free 7]\<rparr>))"
  using connect_failed_state_releases [of initial
      "sample_env 0 (\<lambda>i. if i < 2 then PA_CONTEXT_CONNECTING else PA_CONTEXT_FAILED)" 7 3 2]
  by (simp add: sample_env_def initial_def pending_def connect_prefix_def eval_nat_numeral)

lemma connect_ready:
  assumes "refs s = 0" and "mainloop_new_result e = Some m" and "0 \<le> mainloop_start_result e"
    and "context_new_result e = Some ctx" and "0 \<le> context_connect_result e"
    and "\<forall>j<k. pending (context_state e j)"
    and "context_state e k = PA_CONTEXT_READY"
  shows "vlc_pa_connect e s =
           Some (Inr (Some ctx, s\<lparr>vlc_pa_mainloop := Some m, refs := 1,
             events := events s @ connect_prefix e m ctx @ replicate k (Mainloop_wait m)
               @ [Mainloop_unlock m]\<rparr>))"
proof -
  let ?s1 = "s\<lparr>vlc_pa_mainloop := Some m, refs := 1,
                events := events s @ [Mutex_lock, Mainloop_new (Some m),
                            Mainloop_start m (mainloop_start_result e), Refs_store 1, Mutex_unlock]\<rparr>"
  let ?s3 = "emit (Context_connect ctx (context_connect_result e))
               (emit (Context_set_state_callback ctx m)
                 (emit (Free_string (user_agent e))
                   (emit (Context_new m (user_agent e) (context_new_result e))
                     (emit (Mainloop_lock m) ?s1))))"
  have np: "\<not> pending (context_state e k)"
    using assms(7) by (simp add: pending_def)
  have w: "context_wait e m ?s3 = Some (False, waits m k ?s3)"
    using context_wait_settles [OF assms(6) np, of m ?s3] assms(7) by simp
  have "vlc_pa_connect e s = Some (Inr (Some ctx, emit (Mainloop_unlock m) (waits m k ?s3)))"
    using init_fresh [OF assms(1-3)] assms(4,5) w
    by (simp add: vlc_pa_connect_def Let_def)
  then show ?thesis
    using assms(4) by (simp add: emit_def waits_def connect_prefix_def)
qed

lemma connect_ready_witness:
  "vlc_pa_connect (sample_env 0 (\<lambda>i. if i < 1 then PA_CONTEXT_AUTHORIZING else PA_CONTEXT_READY)) initial
     = Some (Inr (Some 3, \<lparr>vlc_pa_mainloop = Some 7, refs = 1, events =
         [Mutex_lock, Mainloop_new (Some 7), Mainloop_start 7 0, Refs_store 1, Mutex_unlock,
          Mainloop_lock 7, Context_new 7 (Some ''VLC media player'') (Some 3),
          Free_string (Some ''VLC media player''),
          Context_set_state_callback 3 7, Context_connect 3 0,
          Mainloop_wait 7, Mainloop_unlock 7]\<rparr>))"
  using connect_ready [of initial
      "sample_env 0 (\<lambda>i. if i < 1 then PA_CONTEXT_AUTHORIZING else PA_CONTEXT_READY)" 7 3 1]
  by (simp add: sample_env_def initial_def pending_def connect_prefix_def)

text \<open>
  Two acquisitions and two releases from the start of the program: the second
  acquisition is turned away, the first release stops the thread, the second aborts.
\<close>

lemma second_acquire_refused_first_release_stops:
  "calls [Acquire (sample_env 0 (\<lambda>i. PA_CONTEXT_READY)), Acquire (sample_env 0 (\<lambda>i. PA_CONTEXT_READY)),
          Release (Some 7)] ([], initial)
     = Inr ([Some 7, None], \<lparr>vlc_pa_mainloop = Some 7, refs = 0, events =
         [Mutex_lock, Mainloop_new (Some 7), Mainloop_start 7 0, Refs_store 1, Mutex_unlock,
          Mutex_lock, Mutex_unlock,
          Mutex_lock, Refs_store 0, Mutex_unlock, Mainloop_stop 7, Mainloop_free 7]\<rparr>)
   \<and> calls [Acquire (sample_env 0 (\<lambda>i. PA_CONTEXT_READY)), Acquire (sample_env 0 (\<lambda>i. PA_CONTEXT_READY)),
            Release (Some 7), Release (Some 7)] ([], initial)
     = Inl Assertion_failed"
  by (simp add: vlc_pa_mainloop_init_def vlc_pa_mainloop_deinit_def init_tail_def emit_def
      sample_env_def initial_def UINT_MAX_def)

subsection \<open>The reference count\<close>

text \<open>
  C1. With one holder already (\<^verbatim>\<open>refs = 1\<close>, the main loop \<open>7\<close> running) the
  specification has \<^verbatim>\<open>vlc_pa_mainloop_init\<close> return the loop and count 2. The test
  \<^verbatim>\<open>refs < UINT_MAX\<close> sends every count from 1 to \<^verbatim>\<open>UINT_MAX - 1\<close> to the
  failure exit instead: the call returns \<^verbatim>\<open>NULL\<close> and leaves the count at 1. At
  \<^verbatim>\<open>UINT_MAX\<close> itself the call does not fail: it returns the loop and the count
  wraps to 0.
\<close>

theorem acquire_with_holder_fails:
  "vlc_pa_mainloop_init (sample_env 0 (\<lambda>i. PA_CONTEXT_READY))
       \<lparr>vlc_pa_mainloop = Some 7, refs = 1, events = []\<rparr>
     = Inr (None, \<lparr>vlc_pa_mainloop = Some 7, refs = 1, events = [Mutex_lock, Mutex_unlock]\<rparr>)
   \<and> vlc_pa_mainloop_init (sample_env 0 (\<lambda>i. PA_CONTEXT_READY))
       \<lparr>vlc_pa_mainloop = Some 7, refs = UINT_MAX, events = []\<rparr>
     = Inr (Some 7, \<lparr>vlc_pa_mainloop = Some 7, refs = 0,
                     events = [Mutex_lock, Refs_store 0, Mutex_unlock]\<rparr>)"
  by (simp add: vlc_pa_mainloop_init_def init_tail_def emit_def UINT_MAX_def)



text \<open>
  C4. With no holder, a main loop that is allocated but whose thread cannot be started
  (\<^verbatim>\<open>pa_threaded_mainloop_start\<close> returns \<open>- 1\<close>) is freed, and the count stays
  0; but the local pointer is not reset before \<^verbatim>\<open>goto out\<close>, so the function
  returns the freed loop \<open>7\<close>, not \<^verbatim>\<open>NULL\<close>: the failure is not reported. When
  the loop cannot be allocated the function does return \<^verbatim>\<open>NULL\<close> with the count
  at 0.
\<close>

theorem start_failure_returns_freed_loop:
  "vlc_pa_mainloop_init (sample_env (- 1) (\<lambda>i. PA_CONTEXT_READY)) initial
     = Inr (Some 7, \<lparr>vlc_pa_mainloop = None, refs = 0, events =
         [Mutex_lock, Mainloop_new (Some 7), Mainloop_start 7 (- 1), Mainloop_free 7, Mutex_unlock]\<rparr>)
   \<and> vlc_pa_mainloop_init ((sample_env 0 (\<lambda>i. PA_CONTEXT_READY))\<lparr>mainloop_new_result := None\<rparr>) initial
     = Inr (None, \<lparr>vlc_pa_mainloop = None, refs = 0, events =
         [Mutex_lock, Mainloop_new None, Mutex_unlock]\<rparr>)"
  by (simp add: vlc_pa_mainloop_init_def emit_def sample_env_def initial_def)

text \<open>
  C5. A release of the current main loop with a positive count takes the mutex, stores
  the decremented count, gives the mutex up, and only then, when the count has reached
  zero, stops and frees the loop. The scan \<open>release_order\<close> accepts these events: the
  store happens with the mutex held, the stop and the free with the mutex not held.
\<close>

theorem release_stops_outside_mutex:
  assumes "0 < refs s" and "vlc_pa_mainloop s = Some m"
  shows "vlc_pa_mainloop_deinit (Some m) s =
           Inr (s\<lparr>refs := refs s - 1,
                  events := events s @ [Mutex_lock, Refs_store (refs s - 1), Mutex_unlock]
                              @ (if refs s = 1 then [Mainloop_stop m, Mainloop_free m] else [])\<rparr>)
       \<and> release_order False ([Mutex_lock, Refs_store (refs s - 1), Mutex_unlock]
                              @ (if refs s = 1 then [Mainloop_stop m, Mainloop_free m] else []))"
  using deinit_counted [OF assms] by simp

theorem release_stops_outside_mutex_witness:
  "vlc_pa_mainloop_deinit (Some 7) \<lparr>vlc_pa_mainloop = Some 7, refs = 1, events = []\<rparr>
     = Inr \<lparr>vlc_pa_mainloop = Some 7, refs = 0,
            events = [Mutex_lock, Refs_store 0, Mutex_unlock, Mainloop_stop 7, Mainloop_free 7]\<rparr>
   \<and> vlc_pa_mainloop_deinit (Some 7) \<lparr>vlc_pa_mainloop = Some 7, refs = 2, events = []\<rparr>
     = Inr \<lparr>vlc_pa_mainloop = Some 7, refs = 1,
            events = [Mutex_lock, Refs_store 1, Mutex_unlock]\<rparr>"
  using release_stops_outside_mutex [of "\<lparr>vlc_pa_mainloop = Some 7, refs = 1, events = []\<rparr>" 7]
    release_stops_outside_mutex [of "\<lparr>vlc_pa_mainloop = Some 7, refs = 2, events = []\<rparr>" 7]
  by simp

text \<open>
  C9. \<^verbatim>\<open>vlc_pa_mainloop_deinit\<close> asserts \<^verbatim>\<open>refs > 0\<close> and
  \<^verbatim>\<open>mainloop == vlc_pa_mainloop\<close>. An acquisition whose thread start fails returns
  the freed loop \<open>7\<close>, not \<^verbatim>\<open>NULL\<close>, without having counted it; the caller, who
  tests the pointer against \<^verbatim>\<open>NULL\<close> only, takes it for a success, and the one
  release it then owes fails the assertions. \<^verbatim>\<open>vlc_pa_connect\<close> is such a caller:
  with a thread that cannot start and a server that refuses the connection it ends in the
  failed assertion (if the calls it makes on the freed loop on the way return at all).
\<close>

theorem release_after_start_failure_aborts:
  "calls [Acquire (sample_env (- 1) (\<lambda>i. PA_CONTEXT_FAILED)), Release (Some 7)] ([], initial)
     = Inl Assertion_failed
   \<and> vlc_pa_connect (sample_env (- 1) (\<lambda>i. PA_CONTEXT_FAILED)) initial = Some (Inl Assertion_failed)"
  by (simp add: vlc_pa_connect_def vlc_pa_mainloop_init_def vlc_pa_mainloop_deinit_def emit_def
      sample_env_def initial_def context_wait_def context_wait_loop.simps connect_error_def
      connect_fail_def vlc_pa_error_def bool_of_int_def Let_def)

subsection \<open>Connecting and disconnecting\<close>

text \<open>
  C10. \<^verbatim>\<open>context_wait\<close> returns the operand \<open>- 1\<close> when the poll that ends the
  loop reads Failed or Terminated and the operand \<open>0\<close> when it reads Ready. Converted to
  the declared return type \<^verbatim>\<open>bool\<close>, \<open>- 1\<close> is true and \<open>0\<close> is false, so the
  value the caller tests is true exactly when the loop ended on Failed or Terminated, which
  is exactly when it did not end on Ready. In \<^verbatim>\<open>vlc_pa_connect\<close>, once the main
  loop is acquired, the context created and the connection request accepted, the test
  \<^verbatim>\<open>pa_context_connect (...) < 0 || context_wait (...)\<close> therefore takes the failure
  branch (which never returns a context) exactly on Failed or Terminated, and the context
  is returned exactly on Ready.
\<close>

theorem context_wait_result:
  assumes "\<forall>j<k. pending (context_state e j)" and "\<not> pending (context_state e k)"
  shows "context_wait_loop e m 0 t =
           Some (if context_state e k = PA_CONTEXT_FAILED \<or> context_state e k = PA_CONTEXT_TERMINATED
                 then - 1 else 0, waits m k t)
       \<and> context_wait e m t =
           Some (context_state e k = PA_CONTEXT_FAILED \<or> context_state e k = PA_CONTEXT_TERMINATED,
                 waits m k t)
       \<and> (context_state e k = PA_CONTEXT_FAILED \<or> context_state e k = PA_CONTEXT_TERMINATED)
           = (context_state e k \<noteq> PA_CONTEXT_READY)
       \<and> bool_of_int (- 1) \<and> \<not> bool_of_int 0
       \<and> (vlc_pa_mainloop_init e s = Inr (Some m, s1) \<and> context_new_result e = Some ctx
            \<and> 0 \<le> context_connect_result e \<longrightarrow>
          vlc_pa_connect e s =
            Some (if context_state e k = PA_CONTEXT_FAILED \<or> context_state e k = PA_CONTEXT_TERMINATED
                  then connect_error e m ctx (waits m k (connect_requested e m ctx s1))
                  else Inr (Some ctx,
                         emit (Mainloop_unlock m) (waits m k (connect_requested e m ctx s1))))
          \<and> (\<forall>c s'. connect_error e m ctx (waits m k (connect_requested e m ctx s1)) \<noteq> Inr (Some c, s'))
          \<and> (\<exists>s'. vlc_pa_connect e s = Some (Inr (Some ctx, s')))
              = (context_state e k = PA_CONTEXT_READY))"
proof -
  have loop: "context_wait_loop e m 0 t =
      Some (if context_state e k = PA_CONTEXT_READY then 0 else - 1, waits m k t)"
    using context_wait_loop_settles [of 0 k e m t] assms by simp
  have alt: "(context_state e k = PA_CONTEXT_FAILED \<or> context_state e k = PA_CONTEXT_TERMINATED)
      = (context_state e k \<noteq> PA_CONTEXT_READY)"
    using assms(2) by (auto simp: pending_def)
  have first: "context_wait_loop e m 0 t =
           Some (if context_state e k = PA_CONTEXT_FAILED \<or> context_state e k = PA_CONTEXT_TERMINATED
                 then - 1 else 0, waits m k t)
       \<and> context_wait e m t =
           Some (context_state e k = PA_CONTEXT_FAILED \<or> context_state e k = PA_CONTEXT_TERMINATED,
                 waits m k t)
       \<and> bool_of_int (- 1) \<and> \<not> bool_of_int 0"
    using loop alt context_wait_settles [OF assms, of m t]
    by (auto simp: bool_of_int_def)
  have caller: "vlc_pa_connect e s =
            Some (if context_state e k = PA_CONTEXT_FAILED \<or> context_state e k = PA_CONTEXT_TERMINATED
                  then connect_error e m ctx (waits m k (connect_requested e m ctx s1))
                  else Inr (Some ctx,
                         emit (Mainloop_unlock m) (waits m k (connect_requested e m ctx s1))))
          \<and> (\<forall>c s'. connect_error e m ctx (waits m k (connect_requested e m ctx s1)) \<noteq> Inr (Some c, s'))
          \<and> (\<exists>s'. vlc_pa_connect e s = Some (Inr (Some ctx, s')))
              = (context_state e k = PA_CONTEXT_READY)"
    if h: "vlc_pa_mainloop_init e s = Inr (Some m, s1) \<and> context_new_result e = Some ctx
            \<and> 0 \<le> context_connect_result e"
  proof -
    from h have i: "vlc_pa_mainloop_init e s = Inr (Some m, s1)"
      and c: "context_new_result e = Some ctx" and r: "0 \<le> context_connect_result e"
      by simp_all
    note res = connect_after_wait [OF i c r assms]
    show ?thesis
      using res alt by (auto simp: connect_error_no_context)
  qed
  from first alt caller show ?thesis by blast
qed

theorem context_wait_result_witness:
  "context_wait (sample_env 0 (\<lambda>i. if i < 2 then PA_CONTEXT_CONNECTING else PA_CONTEXT_FAILED)) 7 initial
     = Some (True, \<lparr>vlc_pa_mainloop = None, refs = 0, events = [Mainloop_wait 7, Mainloop_wait 7]\<rparr>)
   \<and> context_wait (sample_env 0 (\<lambda>i. if i < 1 then PA_CONTEXT_AUTHORIZING else PA_CONTEXT_READY)) 7 initial
     = Some (False, \<lparr>vlc_pa_mainloop = None, refs = 0, events = [Mainloop_wait 7]\<rparr>)
   \<and> vlc_pa_connect (sample_env 0 (\<lambda>i. if i < 2 then PA_CONTEXT_CONNECTING else PA_CONTEXT_FAILED)) initial
     = Some (Inr (None, \<lparr>vlc_pa_mainloop = Some 7, refs = 0, events =
         [Mutex_lock, Mainloop_new (Some 7), Mainloop_start 7 0, Refs_store 1, Mutex_unlock,
          Mainloop_lock 7, Context_new 7 (Some ''VLC media player'') (Some 3),
          Free_string (Some ''VLC media player''),
          Context_set_state_callback 3 7, Context_connect 3 0,
          Mainloop_wait 7, Mainloop_wait 7,
          Msg_Err ''PulseAudio server connection failure: Connection refused'',
          Context_unref 3, Mainloop_unlock 7,
          Mutex_lock, Refs_store 0, Mutex_unlock, Mainloop_stop 7, Mainloop_free 7]\<rparr>))
   \<and> vlc_pa_connect (sample_env 0 (\<lambda>i. if i < 1 then PA_CONTEXT_AUTHORIZING else PA_CONTEXT_READY)) initial
     = Some (Inr (Some 3, \<lparr>vlc_pa_mainloop = Some 7, refs = 1, events =
         [Mutex_lock, Mainloop_new (Some 7), Mainloop_start 7 0, Refs_store 1, Mutex_unlock,
          Mainloop_lock 7, Context_new 7 (Some ''VLC media player'') (Some 3),
          Free_string (Some ''VLC media player''),
          Context_set_state_callback 3 7, Context_connect 3 0,
          Mainloop_wait 7, Mainloop_unlock 7]\<rparr>))"
proof -
  let ?f = "sample_env 0 (\<lambda>i. if i < 2 then PA_CONTEXT_CONNECTING else PA_CONTEXT_FAILED)"
  let ?r = "sample_env 0 (\<lambda>i. if i < 1 then PA_CONTEXT_AUTHORIZING else PA_CONTEXT_READY)"
  let ?s1 = "\<lparr>vlc_pa_mainloop = Some 7, refs = 1, events =
         [Mutex_lock, Mainloop_new (Some 7), Mainloop_start 7 0, Refs_store 1, Mutex_unlock]\<rparr>"
  have pf: "\<forall>j<2. pending (context_state ?f j)" "\<not> pending (context_state ?f 2)"
    by (simp_all add: sample_env_def pending_def)
  have pr: "\<forall>j<1. pending (context_state ?r j)" "\<not> pending (context_state ?r 1)"
    by (simp_all add: sample_env_def pending_def)
  have hf: "vlc_pa_mainloop_init ?f initial = Inr (Some 7, ?s1) \<and> context_new_result ?f = Some 3
      \<and> 0 \<le> context_connect_result ?f"
    by (simp add: vlc_pa_mainloop_init_def init_tail_def emit_def sample_env_def initial_def)
  have hr: "vlc_pa_mainloop_init ?r initial = Inr (Some 7, ?s1) \<and> context_new_result ?r = Some 3
      \<and> 0 \<le> context_connect_result ?r"
    by (simp add: vlc_pa_mainloop_init_def init_tail_def emit_def sample_env_def initial_def)
  note tf = context_wait_result [OF pf, of 7 initial initial ?s1 3]
  note tr = context_wait_result [OF pr, of 7 initial initial ?s1 3]
  from tf have wf: "context_wait ?f 7 initial = Some (True, waits 7 2 initial)"
    by (simp add: sample_env_def)
  from tr have wr: "context_wait ?r 7 initial = Some (False, waits 7 1 initial)"
    by (simp add: sample_env_def)
  from tf [THEN conjunct2, THEN conjunct2, THEN conjunct2, THEN conjunct2, THEN conjunct2,
      THEN mp, OF hf, THEN conjunct1]
  have cf: "vlc_pa_connect ?f initial =
      Some (connect_error ?f 7 3 (waits 7 2 (connect_requested ?f 7 3 ?s1)))"
    by (simp add: sample_env_def)
  from tr [THEN conjunct2, THEN conjunct2, THEN conjunct2, THEN conjunct2, THEN conjunct2,
      THEN mp, OF hr, THEN conjunct1]
  have cr: "vlc_pa_connect ?r initial =
      Some (Inr (Some 3, emit (Mainloop_unlock 7) (waits 7 1 (connect_requested ?r 7 3 ?s1))))"
    by (simp add: sample_env_def)
  show ?thesis
    unfolding wf wr cf cr
    by (simp add: waits_def initial_def emit_def connect_requested_def connect_error_def
        connect_fail_def vlc_pa_error_def vlc_pa_mainloop_deinit_def sample_env_def
        eval_nat_numeral)
qed



text \<open>
  C7. \<^verbatim>\<open>vlc_pa_disconnect\<close> with a main loop and a positive count: it takes the
  loop's lock, drops the context, gives the loop's lock up, and only then releases the
  main loop, which stops and frees the loop when this was the last reference.
\<close>

theorem disconnect_order:
  assumes "0 < refs s" and "vlc_pa_mainloop s = Some m"
  shows "vlc_pa_disconnect ctx s =
           Inr (s\<lparr>refs := refs s - 1,
                  events := events s
                    @ [Mainloop_lock m, Context_unref ctx, Mainloop_unlock m]
                    @ [Mutex_lock, Refs_store (refs s - 1), Mutex_unlock]
                    @ (if refs s = 1 then [Mainloop_stop m, Mainloop_free m] else [])\<rparr>)"
proof -
  let ?s = "emit (Mainloop_unlock m) (emit (Context_unref ctx) (emit (Mainloop_lock m) s))"
  have "0 < refs ?s" and "vlc_pa_mainloop ?s = Some m"
    using assms by (simp_all add: emit_def)
  from deinit_counted [OF this] show ?thesis
    using assms(2) by (simp add: vlc_pa_disconnect_def emit_def)
qed

theorem disconnect_order_witness:
  "vlc_pa_disconnect 3 \<lparr>vlc_pa_mainloop = Some 7, refs = 1, events = []\<rparr>
     = Inr \<lparr>vlc_pa_mainloop = Some 7, refs = 0,
            events = [Mainloop_lock 7, Context_unref 3, Mainloop_unlock 7,
                      Mutex_lock, Refs_store 0, Mutex_unlock, Mainloop_stop 7, Mainloop_free 7]\<rparr>"
  using disconnect_order [of "\<lparr>vlc_pa_mainloop = Some 7, refs = 1, events = []\<rparr>" 7 3]
  by simp

subsection \<open>The presentation timestamp\<close>




end
